theory Spec2Isabelle
  imports Main "HOL-Library.Sublist" "HOL-Library.Product_Lexorder"
    "HOL-Library.List_Lexorder" "HOL-Library.Char_ord" "HOL-Library.Multiset"
begin

section \<open>Strings\<close>

text \<open>
  JavaScript strings and SQLite TEXT values are modelled as \<^typ>\<open>string\<close>; a TEXT value
  is the list of its UTF-8 bytes. The keyword lists, the regular expressions and SQLite's
  LIKE only distinguish ASCII letters, digits and the underscore, so \<open>toLowerCase\<close> is
  modelled on the ASCII letters.
\<close>

definition ascii_upper :: string where
  "ascii_upper = ''ABCDEFGHIJKLMNOPQRSTUVWXYZ''"

definition ascii_lower :: string where
  "ascii_lower = ''abcdefghijklmnopqrstuvwxyz''"

definition ascii_digit :: string where
  "ascii_digit = ''0123456789''"

definition lower_char :: "char \<Rightarrow> char" where
  "lower_char c = (case map_of (zip ascii_upper ascii_lower) c of Some l \<Rightarrow> l | None \<Rightarrow> c)"

definition toLowerCase :: "string \<Rightarrow> string" where
  "toLowerCase s = map lower_char s"

text \<open>\<open>s.includes(sub)\<close>: \<open>sub\<close> occurs in \<open>s\<close> as a contiguous substring.\<close>

fun str_includes :: "string \<Rightarrow> string \<Rightarrow> bool" where
  "str_includes [] sub = (sub = [])"
| "str_includes (c # s) sub = (prefix sub (c # s) \<or> str_includes s sub)"

text \<open>\<open>xs.join(sep)\<close>\<close>

fun join :: "string \<Rightarrow> string list \<Rightarrow> string" where
  "join sep [] = []"
| "join sep [x] = x"
| "join sep (x # y # ys) = x @ sep @ join sep (y # ys)"

subsection \<open>The three regular expressions of the classifier\<close>

text \<open>
  The character classes \<open>[A-Z]\<close>, \<open>\d\<close>, \<open>[A-Z0-9]\<close> and \<open>\w\<close> (without the \<open>u\<close> and
  \<open>i\<close> flags, as in the source).
\<close>

definition is_upper :: "char \<Rightarrow> bool" where
  "is_upper c = (c \<in> set ascii_upper)"

definition is_digit :: "char \<Rightarrow> bool" where
  "is_digit c = (c \<in> set ascii_digit)"

definition is_upper_or_digit :: "char \<Rightarrow> bool" where
  "is_upper_or_digit c = (is_upper c \<or> is_digit c)"

definition is_word :: "char \<Rightarrow> bool" where
  "is_word c = (c \<in> set ascii_upper \<or> c \<in> set ascii_lower \<or> c \<in> set ascii_digit \<or> c = CHR ''_'')"

text \<open>\<open>take_class p n s\<close> matches exactly \<open>n\<close> characters of class \<open>p\<close> at the start of
  \<open>s\<close> and returns the rest of the text.\<close>

fun take_class :: "(char \<Rightarrow> bool) \<Rightarrow> nat \<Rightarrow> string \<Rightarrow> string option" where
  "take_class p 0 s = Some s"
| "take_class p (Suc n) [] = None"
| "take_class p (Suc n) (c # s) = (if p c then take_class p n s else None)"

text \<open>\<open>\b\<close> after a word character: the text ends or continues with a non-word character.\<close>

definition word_end :: "string \<Rightarrow> bool" where
  "word_end s = (case s of [] \<Rightarrow> True | c # _ \<Rightarrow> \<not> is_word c)"

text \<open>\<open>[A-Z0-9]{6}\b\<close>, \<open>[A-Z]{2}\d{1,4}\b\<close> and \<open>[A-Z]{3}\b\<close> matched at the start of a text.\<close>

definition confirmation_code_here :: "string \<Rightarrow> bool" where
  "confirmation_code_here s =
     (case take_class is_upper_or_digit (Suc (Suc (Suc (Suc (Suc (Suc 0)))))) s of
        None \<Rightarrow> False | Some r \<Rightarrow> word_end r)"

definition digits_then_end :: "nat \<Rightarrow> string \<Rightarrow> bool" where
  "digits_then_end k s = (case take_class is_digit k s of None \<Rightarrow> False | Some r \<Rightarrow> word_end r)"

definition flight_number_here :: "string \<Rightarrow> bool" where
  "flight_number_here s =
     (case take_class is_upper (Suc (Suc 0)) s of
        None \<Rightarrow> False
      | Some r \<Rightarrow> digits_then_end (Suc 0) r \<or> digits_then_end (Suc (Suc 0)) r
           \<or> digits_then_end (Suc (Suc (Suc 0))) r \<or> digits_then_end (Suc (Suc (Suc (Suc 0)))) r)"

definition airport_code_here :: "string \<Rightarrow> bool" where
  "airport_code_here s =
     (case take_class is_upper (Suc (Suc (Suc 0))) s of None \<Rightarrow> False | Some r \<Rightarrow> word_end r)"

text \<open>
  \<open>/\bP/.test(text)\<close> for a pattern \<open>P\<close> that starts with a word character: some position of
  the text is at the start of the text or follows a non-word character, and \<open>P\<close> matches
  there. The flag \<open>prev\<close> says whether the character before the current position is a word
  character.
\<close>

fun regex_test :: "(string \<Rightarrow> bool) \<Rightarrow> bool \<Rightarrow> string \<Rightarrow> bool" where
  "regex_test here prev [] = False"
| "regex_test here prev (c # s) = ((\<not> prev \<and> here (c # s)) \<or> regex_test here (is_word c) s)"

section \<open>The classifier\<close>

record EmailData =
  ed_html :: string
  ed_from_email :: string
  ed_subject :: string
  ed_plain_text :: "string option"
  ed_message_id :: string
  ed_date :: string

record ConfidenceResult =
  score :: int
  reasons :: "string list"

record CandidateResult =
  isCandidate :: bool
  cr_score :: int
  cr_reasons :: "string list"

definition KNOWN_AIRLINE_SENDERS :: "string list" where
  "KNOWN_AIRLINE_SENDERS =
     [''united.com'', ''delta.com'', ''aa.com'', ''southwest.com'', ''jetblue.com'',
      ''alaskaair.com'', ''spirit.com'', ''frontier.com'', ''allegiantair.com'']"

definition KNOWN_OTA_SENDERS :: "string list" where
  "KNOWN_OTA_SENDERS =
     [''expedia.com'', ''kayak.com'', ''priceline.com'', ''booking.com'', ''orbitz.com'',
      ''travelocity.com'', ''hotwire.com'', ''cheapoair.com'']"

definition CONFIRMATION_KEYWORDS :: "string list" where
  "CONFIRMATION_KEYWORDS = [''confirmation'', ''confirmed'', ''itinerary'', ''booking'', ''receipt'']"

definition FLIGHT_KEYWORDS :: "string list" where
  "FLIGHT_KEYWORDS = [''flight'', ''airline'', ''boarding'', ''departure'', ''arrival'']"

definition CONFIDENCE_THRESHOLD :: int where
  "CONFIDENCE_THRESHOLD = 30"

definition hasFlightReservationSchema :: "string \<Rightarrow> bool" where
  "hasFlightReservationSchema h =
     (str_includes h ''FlightReservation'' \<or> str_includes h ''schema.org/FlightReservation'')"

definition isKnownSender :: "string \<Rightarrow> bool" where
  "isKnownSender email =
     (let lowerEmail = toLowerCase email in
        list_ex (\<lambda>domain. str_includes lowerEmail domain) KNOWN_AIRLINE_SENDERS
      \<or> list_ex (\<lambda>domain. str_includes lowerEmail domain) KNOWN_OTA_SENDERS)"

definition hasConfirmationKeywords :: "string \<Rightarrow> bool" where
  "hasConfirmationKeywords subj =
     (let lowerSubject = toLowerCase subj in
        list_ex (\<lambda>kw. str_includes lowerSubject kw) CONFIRMATION_KEYWORDS)"

definition hasFlightKeywords :: "string \<Rightarrow> bool" where
  "hasFlightKeywords subj =
     (let lowerSubject = toLowerCase subj in
        list_ex (\<lambda>kw. str_includes lowerSubject kw) FLIGHT_KEYWORDS)"

definition detectFlightMarkers :: "string \<Rightarrow> string list" where
  "detectFlightMarkers text =
     (if regex_test confirmation_code_here False text then [''confirmation code''] else [])
   @ (if regex_test flight_number_here False text then [''flight number''] else [])
   @ (if regex_test airport_code_here False text then [''airport code''] else [])"

text \<open>\<open>score += n; reasons.push(reason)\<close>\<close>

definition add_rule :: "int \<Rightarrow> string \<Rightarrow> ConfidenceResult \<Rightarrow> ConfidenceResult" where
  "add_rule n reason r = \<lparr>score = score r + n, reasons = reasons r @ [reason]\<rparr>"

definition calculateConfidenceScore :: "EmailData \<Rightarrow> ConfidenceResult" where
  "calculateConfidenceScore emailData =
     (let r0 = \<lparr>score = 0, reasons = []\<rparr>;
          r1 = (if hasFlightReservationSchema (ed_html emailData)
                then add_rule 50 ''Has FlightReservation schema markup'' r0 else r0);
          r2 = (if isKnownSender (ed_from_email emailData)
                then add_rule 20 ''Known airline/OTA sender'' r1 else r1);
          r3 = (if hasConfirmationKeywords (ed_subject emailData)
                then add_rule 15 ''Confirmation keyword in subject'' r2 else r2);
          r4 = (if hasFlightKeywords (ed_subject emailData)
                then add_rule 10 ''Flight keyword in subject'' r3 else r3);
          text = (case ed_plain_text emailData of None \<Rightarrow> [] | Some t \<Rightarrow> t);
          markersFound = detectFlightMarkers text
      in if length markersFound \<ge> 2
         then add_rule 10 (''Flight markers: '' @ join '', '' markersFound) r4
         else r4)"

definition isCandidateForReview :: "EmailData \<Rightarrow> CandidateResult" where
  "isCandidateForReview emailData =
     (let r = calculateConfidenceScore emailData
      in \<lparr>isCandidate = (score r \<ge> CONFIDENCE_THRESHOLD), cr_score = score r,
          cr_reasons = reasons r\<rparr>)"

section \<open>SQL building blocks\<close>

text \<open>
  A table is the list of its rows in rowid order. \<open>ORDER BY k DESC\<close> is modelled as SQLite
  executes it: rows come out by descending key, and rows with equal keys stay in rowid
  order. TEXT keys compare bytewise, INTEGER keys numerically; \<open>ORDER BY a DESC, b DESC\<close>
  is the lexicographic order on the pair \<open>(a, b)\<close>.
\<close>

definition order_by_desc :: "('a \<Rightarrow> 'k::linorder) \<Rightarrow> 'a list \<Rightarrow> 'a list" where
  "order_by_desc k rows = rev (sort_key k (rev rows))"

text \<open>
  \<open>LIMIT n\<close> for a 64-bit integer \<open>n\<close>: SQLite puts no upper bound on the number of rows
  when \<open>n\<close> is negative.
\<close>

definition sql_limit :: "int \<Rightarrow> 'a list \<Rightarrow> 'a list" where
  "sql_limit n rows = (if n < 0 then rows else take (nat n) rows)"

text \<open>
  The errors that the two reading statements can raise: a limit that SQLite cannot take, and
  a LIKE pattern that is too long.
\<close>

datatype sql_error = DatatypeMismatch | LikePatternTooComplex

text \<open>
  A JavaScript number bound to \<open>LIMIT ?\<close>: a whole number, or one that is not (a fraction,
  an infinity or NaN). Numbers are bound as 64-bit floats, and SQLite takes one as a limit
  only if it is a whole number strictly between the least and the greatest 64-bit integer;
  otherwise the statement fails with \<open>datatype mismatch\<close>, whatever the table holds.
\<close>

datatype number = Integer int | NonInteger

definition bind_limit :: "number \<Rightarrow> sql_error + int" where
  "bind_limit v =
     (case v of
        NonInteger \<Rightarrow> Inl DatatypeMismatch
      | Integer n \<Rightarrow>
          if - (2 ^ 63) < n \<and> n < 2 ^ 63 - 1 then Inr n else Inl DatatypeMismatch)"






section \<open>The database manager\<close>

text \<open>
  The rows handed to \<open>insertCandidates\<close> (an \<open>EmailCandidate\<close> without \<open>id\<close>,
  \<open>fetched_at\<close> and \<open>reviewed\<close>) and the rows of the three tables. Timestamps written by
  \<open>CURRENT_TIMESTAMP\<close> are the clock value in seconds; BOOLEAN columns hold the numbers the
  statements write (0 or 1).
\<close>

record CandidateInput =
  message_id :: string
  gmail_uid :: string
  subject :: string
  from_email :: string
  msg_date :: string
  preview_text :: string
  html_content :: string
  plain_text :: string
  confidence_score :: int
  detection_reasons :: string

record EmailCandidate = CandidateInput +
  c_id :: nat
  fetched_at :: nat
  reviewed :: nat

record ReviewDecisionRecord =
  d_id :: nat
  email_candidate_id :: nat
  d_message_id :: string
  is_flight_confirmation :: nat
  reviewed_at :: nat
  d_notes :: "string option"

record ConfirmedFlight =
  f_id :: nat
  f_message_id :: string
  f_gmail_uid :: string
  f_subject :: string
  forwarded_to_tripit :: nat
  forwarded_at :: "nat option"
  parse_status :: "string option"
  tripit_trip_id :: "string option"
  created_at :: nat

text \<open>
  The state of the database file: the three tables and, for each, the largest id handed out
  so far (the ids are \<open>AUTOINCREMENT\<close>, so an id is never used twice).
\<close>

record Database =
  email_candidates :: "EmailCandidate list"
  email_candidates_seq :: nat
  review_decisions :: "ReviewDecisionRecord list"
  review_decisions_seq :: nat
  confirmed_flights :: "ConfirmedFlight list"
  confirmed_flights_seq :: nat

definition initDatabase :: Database where
  "initDatabase =
     \<lparr>email_candidates = [], email_candidates_seq = 0,
      review_decisions = [], review_decisions_seq = 0,
      confirmed_flights = [], confirmed_flights_seq = 0\<rparr>"

definition getUnreviewedCandidates :: "Database \<Rightarrow> number \<Rightarrow> sql_error + EmailCandidate list" where
  "getUnreviewedCandidates db limit =
     (case bind_limit limit of
        Inl e \<Rightarrow> Inl e
      | Inr n \<Rightarrow>
          Inr (sql_limit n
                 (order_by_desc (\<lambda>c. (confidence_score c, msg_date c))
                    (filter (\<lambda>c. reviewed c = 0) (email_candidates db)))))"

definition insertReviewDecision ::
  "Database \<Rightarrow> nat \<Rightarrow> nat \<Rightarrow> string \<Rightarrow> bool \<Rightarrow> string option \<Rightarrow> Database" where
  "insertReviewDecision db now emailCandidateId messageId isFlightConfirmation nts =
     (let new_id = Suc (review_decisions_seq db)
      in db\<lparr>review_decisions := review_decisions db @
               [\<lparr>d_id = new_id, email_candidate_id = emailCandidateId,
                 d_message_id = messageId,
                 is_flight_confirmation = (if isFlightConfirmation then 1 else 0),
                 reviewed_at = now, d_notes = nts\<rparr>],
            review_decisions_seq := new_id\<rparr>)"

definition markAsReviewed :: "Database \<Rightarrow> nat \<Rightarrow> Database" where
  "markAsReviewed db candidateId =
     db\<lparr>email_candidates :=
          map (\<lambda>c. if c_id c = candidateId then c\<lparr>reviewed := 1\<rparr> else c) (email_candidates db)\<rparr>"

definition markAsUnreviewed :: "Database \<Rightarrow> nat \<Rightarrow> Database" where
  "markAsUnreviewed db candidateId =
     db\<lparr>email_candidates :=
          map (\<lambda>c. if c_id c = candidateId then c\<lparr>reviewed := 0\<rparr> else c) (email_candidates db)\<rparr>"

definition countUnreviewed :: "Database \<Rightarrow> nat" where
  "countUnreviewed db = length (filter (\<lambda>c. reviewed c = 0) (email_candidates db))"

definition countReviewed :: "Database \<Rightarrow> nat" where
  "countReviewed db = length (filter (\<lambda>c. reviewed c = 1) (email_candidates db))"

definition countTotalCandidates :: "Database \<Rightarrow> nat" where
  "countTotalCandidates db = length (email_candidates db)"

definition countConfirmedFlights :: "Database \<Rightarrow> nat" where
  "countConfirmedFlights db =
     length (filter (\<lambda>d. is_flight_confirmation d = 1) (review_decisions db))"

definition countRejected :: "Database \<Rightarrow> nat" where
  "countRejected db =
     length (filter (\<lambda>d. is_flight_confirmation d = 0) (review_decisions db))"

definition getCandidateByMessageId :: "Database \<Rightarrow> string \<Rightarrow> EmailCandidate option" where
  "getCandidateByMessageId db messageId =
     find (\<lambda>c. message_id c = messageId) (email_candidates db)"

text \<open>
  \<open>INSERT OR IGNORE\<close> into a table whose \<open>message_id\<close> is \<open>UNIQUE\<close>: a row whose
  \<open>message_id\<close> is already stored is dropped. SQLite picks the new rowid before it checks
  the constraint, so a dropped row uses up an id as well.
\<close>

definition insertConfirmedFlight :: "Database \<Rightarrow> nat \<Rightarrow> string \<Rightarrow> string \<Rightarrow> string \<Rightarrow> Database" where
  "insertConfirmedFlight db now messageId gmailUid subj =
     (let new_id = Suc (confirmed_flights_seq db)
      in if list_ex (\<lambda>f. f_message_id f = messageId) (confirmed_flights db)
         then db\<lparr>confirmed_flights_seq := new_id\<rparr>
         else db\<lparr>confirmed_flights := confirmed_flights db @
                    [\<lparr>f_id = new_id, f_message_id = messageId, f_gmail_uid = gmailUid,
                      f_subject = subj, forwarded_to_tripit = 0, forwarded_at = None,
                      parse_status = None, tripit_trip_id = None, created_at = now\<rparr>],
                 confirmed_flights_seq := new_id\<rparr>)"

definition new_candidate_row :: "nat \<Rightarrow> nat \<Rightarrow> CandidateInput \<Rightarrow> EmailCandidate" where
  "new_candidate_row new_id now c =
     \<lparr>message_id = message_id c, gmail_uid = gmail_uid c, subject = subject c,
      from_email = from_email c, msg_date = msg_date c, preview_text = preview_text c,
      html_content = html_content c, plain_text = plain_text c,
      confidence_score = confidence_score c, detection_reasons = detection_reasons c,
      c_id = new_id, fetched_at = now, reviewed = 0\<rparr>"

text \<open>One \<open>stmt.run\<close> of the loop in \<open>insertCandidates\<close>.\<close>

definition insert_candidate :: "nat \<Rightarrow> Database \<Rightarrow> CandidateInput \<Rightarrow> Database" where
  "insert_candidate now db c =
     (let new_id = Suc (email_candidates_seq db)
      in if list_ex (\<lambda>x. message_id x = message_id c) (email_candidates db)
         then db\<lparr>email_candidates_seq := new_id\<rparr>
         else db\<lparr>email_candidates := email_candidates db @ [new_candidate_row new_id now c],
                 email_candidates_seq := new_id\<rparr>)"

text \<open>\<open>insertCandidates\<close> returns \<open>candidates.length\<close> and leaves the new state.\<close>

definition insertCandidates :: "Database \<Rightarrow> nat \<Rightarrow> CandidateInput list \<Rightarrow> nat \<times> Database" where
  "insertCandidates db now candidates = (length candidates, foldl (insert_candidate now) db candidates)"

definition getLastDecision :: "Database \<Rightarrow> ReviewDecisionRecord option" where
  "getLastDecision db =
     (case sql_limit 1 (order_by_desc reviewed_at (review_decisions db)) of
        [] \<Rightarrow> None
      | d # _ \<Rightarrow> Some d)"

definition deleteDecision :: "Database \<Rightarrow> nat \<Rightarrow> Database" where
  "deleteDecision db decisionId =
     db\<lparr>review_decisions := filter (\<lambda>d. d_id d \<noteq> decisionId) (review_decisions db)\<rparr>"


section \<open>The route handlers\<close>

text \<open>
  A handler maps the database state to a response and the state it leaves. Every call into
  the database manager may throw (the handlers wrap their bodies in \<open>try\<close>/\<open>catch\<close> and
  answer 500); \<open>failing\<close> names the call that throws in this run, if any. A statement that
  throws writes nothing, and every statement before it has been committed, since the handlers
  open no transaction. \<open>now\<close> is the clock value that the inserts of the run store.
\<close>

datatype db_call =
    Call_getCandidateByMessageId
  | Call_insertReviewDecision
  | Call_markAsReviewed
  | Call_insertConfirmedFlight
  | Call_countUnreviewed
  | Call_getLastDecision
  | Call_deleteDecision
  | Call_markAsUnreviewed

text \<open>
  The body of \<open>POST /api/emails/review\<close>. A field is \<open>None\<close> when it is missing from the
  JSON body; \<open>rq_is_flight_confirmation\<close> is also \<open>None\<close> when the value is not a boolean.
\<close>

record ReviewDecision =
  email_id :: "string option"
  rq_is_flight_confirmation :: "bool option"
  rq_notes :: "string option"

datatype review_response =
    ReviewSuccess nat
  | ReviewInvalid
  | ReviewNotFound
  | ReviewFailed

datatype undo_response =
    UndoSuccess string
  | UndoNotFound
  | UndoFailed

text \<open>
  What \<open>parseInt\<close> returns, and \<open>Math.min(parseInt(req.query.batch_size) || 20, 100)\<close>,
  the limit that \<open>GET /api/emails/next-batch\<close> hands to \<open>getUnreviewedCandidates\<close>.
\<close>

datatype parseInt_result = Parsed int | ParsedInfinity | ParsedNegInfinity | ParsedNaN

definition batchSize :: "parseInt_result \<Rightarrow> number" where
  "batchSize parsed =
     (case parsed of
        Parsed n \<Rightarrow> Integer (min (if n = 0 then 20 else n) 100)
      | ParsedInfinity \<Rightarrow> Integer 100
      | ParsedNegInfinity \<Rightarrow> NonInteger
      | ParsedNaN \<Rightarrow> Integer 20)"

text \<open>\<open>POST /api/emails/review\<close>: 200 with the remaining count, 400, 404 or 500.\<close>

definition post_review ::
  "Database \<Rightarrow> db_call option \<Rightarrow> nat \<Rightarrow> ReviewDecision \<Rightarrow> review_response \<times> Database" where
  "post_review db failing now decision =
     (case (email_id decision, rq_is_flight_confirmation decision) of
        (Some eid, Some verdict) \<Rightarrow>
          if eid = [] then (ReviewInvalid, db)
          else if failing = Some Call_getCandidateByMessageId then (ReviewFailed, db)
          else (case getCandidateByMessageId db eid of
             None \<Rightarrow> (ReviewNotFound, db)
           | Some candidate \<Rightarrow>
               if failing = Some Call_insertReviewDecision then (ReviewFailed, db)
               else let db1 = insertReviewDecision db now (c_id candidate) eid verdict
                                (rq_notes decision)
               in if failing = Some Call_markAsReviewed then (ReviewFailed, db1)
               else let db2 = markAsReviewed db1 (c_id candidate)
               in if verdict \<and> failing = Some Call_insertConfirmedFlight then (ReviewFailed, db2)
               else let db3 = (if verdict
                               then insertConfirmedFlight db2 now eid (gmail_uid candidate)
                                      (subject candidate)
                               else db2)
               in if failing = Some Call_countUnreviewed then (ReviewFailed, db3)
               else (ReviewSuccess (countUnreviewed db3), db3))
      | _ \<Rightarrow> (ReviewInvalid, db))"

text \<open>\<open>POST /api/emails/undo\<close>: 200 with the undone message id, 404 or 500.\<close>

definition post_undo :: "Database \<Rightarrow> db_call option \<Rightarrow> undo_response \<times> Database" where
  "post_undo db failing =
     (if failing = Some Call_getLastDecision then (UndoFailed, db)
      else (case getLastDecision db of
         None \<Rightarrow> (UndoNotFound, db)
       | Some lastDecision \<Rightarrow>
           if failing = Some Call_deleteDecision then (UndoFailed, db)
           else let db1 = deleteDecision db (d_id lastDecision)
           in if failing = Some Call_markAsUnreviewed then (UndoFailed, db1)
           else (UndoSuccess (d_message_id lastDecision),
                 markAsUnreviewed db1 (email_candidate_id lastDecision))))"

section \<open>Reachable states\<close>

text \<open>
  The states the database can be in: a fresh database, changed by any sequence of calls of
  the writing methods of the database manager (the handlers and the tests call them, with
  any arguments and at any clock value).
\<close>

inductive reachable :: "Database \<Rightarrow> bool" where
  reach_init: "reachable initDatabase"
| reach_insertCandidates: "reachable db \<Longrightarrow> reachable (snd (insertCandidates db now cs))"
| reach_insertReviewDecision:
    "reachable db \<Longrightarrow> reachable (insertReviewDecision db now cid mid verdict nts)"
| reach_markAsReviewed: "reachable db \<Longrightarrow> reachable (markAsReviewed db cid)"
| reach_markAsUnreviewed: "reachable db \<Longrightarrow> reachable (markAsUnreviewed db cid)"
| reach_insertConfirmedFlight:
    "reachable db \<Longrightarrow> reachable (insertConfirmedFlight db now mid uid subj)"
| reach_deleteDecision: "reachable db \<Longrightarrow> reachable (deleteDecision db did)"

text \<open>
  What every reachable state satisfies: ids are unique and not above the largest id handed
  out, message ids of candidates are unique, and \<open>reviewed\<close> is 0 or 1.
\<close>

definition consistent :: "Database \<Rightarrow> bool" where
  "consistent db =
     (list_all (\<lambda>c. c_id c \<le> email_candidates_seq db \<and> (reviewed c = 0 \<or> reviewed c = 1))
        (email_candidates db)
      \<and> distinct (map c_id (email_candidates db))
      \<and> distinct (map message_id (email_candidates db))
      \<and> list_all (\<lambda>d. d_id d \<le> review_decisions_seq db) (review_decisions db)
      \<and> distinct (map d_id (review_decisions db)))"

section \<open>The search of the specification\<close>




section \<open>Example data\<close>

text \<open>Emails used to evaluate the classifier at concrete inputs.\<close>

definition email_upper :: EmailData where
  "email_upper =
     \<lparr>ed_html = ''<html>Details</html>'', ed_from_email = ''noreply@UNITED.COM'',
      ed_subject = ''FLIGHT CONFIRMATION'', ed_plain_text = Some ''Details'',
      ed_message_id = ''msg1'', ed_date = ''2024-01-01''\<rparr>"

definition email_lower :: EmailData where
  "email_lower =
     \<lparr>ed_html = ''<html>Details</html>'', ed_from_email = ''noreply@united.com'',
      ed_subject = ''flight confirmation'', ed_plain_text = Some ''Details'',
      ed_message_id = ''msg2'', ed_date = ''2024-01-01''\<rparr>"

definition email_body :: "string \<Rightarrow> string \<Rightarrow> EmailData" where
  "email_body h t =
     \<lparr>ed_html = h, ed_from_email = ''noreply@example.com'',
      ed_subject = ''Travel Information'', ed_plain_text = Some t,
      ed_message_id = ''msg1'', ed_date = ''2024-01-01''\<rparr>"

definition email_30 :: EmailData where
  "email_30 =
     \<lparr>ed_html = ''<html>Flight details</html>'', ed_from_email = ''noreply@united.com'',
      ed_subject = ''Your flight'', ed_plain_text = Some ''Flight details'',
      ed_message_id = ''msg1'', ed_date = ''2024-01-01''\<rparr>"

definition email_25 :: EmailData where
  "email_25 =
     \<lparr>ed_html = ''<html>Details</html>'', ed_from_email = ''noreply@example.com'',
      ed_subject = ''Flight Confirmation'', ed_plain_text = Some ''Details'',
      ed_message_id = ''msg1'', ed_date = ''2024-01-01''\<rparr>"

text \<open>Candidate rows, requests and database states used at concrete inputs.\<close>

definition candidate_input :: "string \<Rightarrow> int \<Rightarrow> string \<Rightarrow> CandidateInput" where
  "candidate_input mid sc date =
     \<lparr>message_id = mid, gmail_uid = ''uid1'', subject = ''Flight Confirmation'',
      from_email = ''noreply@united.com'', msg_date = date,
      preview_text = ''Your flight is confirmed'',
      html_content = ''<html>Flight details</html>'', plain_text = ''Flight details'',
      confidence_score = sc, detection_reasons = ''[]''\<rparr>"

definition review_request :: "string \<Rightarrow> bool \<Rightarrow> ReviewDecision" where
  "review_request mid verdict =
     \<lparr>email_id = Some mid, rq_is_flight_confirmation = Some verdict, rq_notes = None\<rparr>"

definition db_one :: Database where
  "db_one = snd (insertCandidates initDatabase 0 [candidate_input ''msg1'' 85 ''2024-01-01''])"

definition db_two :: Database where
  "db_two =
     snd (insertCandidates initDatabase 0
            [candidate_input ''msg1'' 85 ''2024-01-01'', candidate_input ''msg2'' 90 ''2024-01-02''])"

text \<open>\<open>db_one\<close> after a positive decision on \<open>msg1\<close> at time 1.\<close>

definition db_one_confirmed :: Database where
  "db_one_confirmed = snd (post_review db_one None 1 (review_request ''msg1'' True))"

text \<open>\<open>db_one_confirmed\<close> after a second decision on \<open>msg1\<close>, at time 2.\<close>

definition db_one_twice :: Database where
  "db_one_twice = snd (post_review db_one_confirmed None 2 (review_request ''msg1'' False))"

text \<open>
  Two candidates of equal score whose \<open>msg_date\<close> is the \<open>Date\<close> header of the message,
  as the mail client extracts it: \<open>msg2023\<close> was sent a year before \<open>msg2024\<close>.
\<close>

definition db_dates :: Database where
  "db_dates =
     snd (insertCandidates initDatabase 0
            [candidate_input ''msg2024'' 85 ''Mon, 01 Jan 2024 10:00:00 +0000'',
             candidate_input ''msg2023'' 85 ''Tue, 03 Jan 2023 10:00:00 +0000''])"

text \<open>\<open>db_two\<close> after a positive decision on \<open>msg1\<close> at time 1.\<close>

definition db_two_one :: Database where
  "db_two_one = snd (post_review db_two None 1 (review_request ''msg1'' True))"

text \<open>\<open>db_two\<close> after decisions on \<open>msg1\<close> at time 1 and on \<open>msg2\<close> at time 2.\<close>

definition db_two_reviewed :: Database where
  "db_two_reviewed =
     snd (post_review (snd (post_review db_two None 1 (review_request ''msg1'' True)))
            None 2 (review_request ''msg2'' False))"

section \<open>The classifier: threshold and letter case\<close>

text \<open>
  The score is a sum of some of the weights 50, 20, 15, 10 and 10, so only these values
  occur; in particular no email scores 26 to 29.
\<close>

lemma score_values:
  "score (calculateConfidenceScore e) \<in>
     {0, 10, 15, 20, 25, 30, 35, 40, 45, 50, 55, 60, 65, 70, 75, 80, 85, 90, 95, 105}"
  by (simp add: calculateConfidenceScore_def add_rule_def Let_def)

text \<open>
  Claim C6. \<open>isCandidateForReview\<close> reports the score and the reasons of
  \<open>calculateConfidenceScore\<close> and accepts an email exactly when its score is at least the
  fixed threshold 30: a score of 29 or less is rejected, a score of 30 is accepted. An
  email scoring exactly 30 is accepted; one scoring 25, the largest score below the
  threshold that an email can have, is rejected.
\<close>

theorem threshold_boundary:
  "isCandidate (isCandidateForReview e) = (score (calculateConfidenceScore e) \<ge> 30)
   \<and> cr_score (isCandidateForReview e) = score (calculateConfidenceScore e)
   \<and> cr_reasons (isCandidateForReview e) = reasons (calculateConfidenceScore e)
   \<and> CONFIDENCE_THRESHOLD = 30
   \<and> cr_score (isCandidateForReview email_30) = 30
   \<and> isCandidate (isCandidateForReview email_30)
   \<and> cr_score (isCandidateForReview email_25) = 25
   \<and> \<not> isCandidate (isCandidateForReview email_25)"
proof -
  have general:
    "isCandidate (isCandidateForReview e) = (score (calculateConfidenceScore e) \<ge> 30)
     \<and> cr_score (isCandidateForReview e) = score (calculateConfidenceScore e)
     \<and> cr_reasons (isCandidateForReview e) = reasons (calculateConfidenceScore e)
     \<and> CONFIDENCE_THRESHOLD = 30"
    by (simp add: isCandidateForReview_def CONFIDENCE_THRESHOLD_def Let_def)
  have s30: "score (calculateConfidenceScore email_30) = 30" by code_simp
  have s25: "score (calculateConfidenceScore email_25) = 25" by code_simp
  show ?thesis using general s30 s25
    by (simp add: isCandidateForReview_def CONFIDENCE_THRESHOLD_def Let_def)
qed

text \<open>
  Claim C3, as stated, fails: the schema-markup rule and the marker patterns look at the
  text as it is. Two HTML bodies that differ only in letter case score 50 and 0; two
  plain-text bodies that differ only in letter case score 10 and 0.
\<close>

theorem case_sensitive_body_counterexample:
  "toLowerCase ''FlightReservation'' = toLowerCase ''flightreservation''
   \<and> score (calculateConfidenceScore (email_body ''FlightReservation'' ''Details'')) = 50
   \<and> score (calculateConfidenceScore (email_body ''flightreservation'' ''Details'')) = 0
   \<and> toLowerCase ''Code ABC123, flight AA1234'' = toLowerCase ''code abc123, flight aa1234''
   \<and> score (calculateConfidenceScore (email_body ''Details'' ''Code ABC123, flight AA1234'')) = 10
   \<and> score (calculateConfidenceScore (email_body ''Details'' ''code abc123, flight aa1234'')) = 0"
  by code_simp

text \<open>
  Claim C3, amended. The score and the reasons are unchanged when the letter case of the
  subject or of the sender address is altered, the HTML body and the plain-text body being
  the same: the sender rule and the two subject-keyword rules are case-insensitive, the
  schema-markup rule and the three marker patterns are case-sensitive.
\<close>

theorem score_ignores_case_of_subject_and_sender:
  assumes "toLowerCase (ed_subject e) = toLowerCase (ed_subject e')"
    and "toLowerCase (ed_from_email e) = toLowerCase (ed_from_email e')"
    and "ed_html e = ed_html e'"
    and "ed_plain_text e = ed_plain_text e'"
  shows "calculateConfidenceScore e = calculateConfidenceScore e'"
  using assms
  by (simp add: calculateConfidenceScore_def isKnownSender_def hasConfirmationKeywords_def
      hasFlightKeywords_def)

theorem score_ignores_case_of_subject_and_sender_witness:
  "toLowerCase (ed_subject email_upper) = toLowerCase (ed_subject email_lower)
   \<and> toLowerCase (ed_from_email email_upper) = toLowerCase (ed_from_email email_lower)
   \<and> ed_subject email_upper \<noteq> ed_subject email_lower
   \<and> ed_from_email email_upper \<noteq> ed_from_email email_lower
   \<and> calculateConfidenceScore email_upper = calculateConfidenceScore email_lower"
proof -
  have 1: "toLowerCase (ed_subject email_upper) = toLowerCase (ed_subject email_lower)"
    by code_simp
  have 2: "toLowerCase (ed_from_email email_upper) = toLowerCase (ed_from_email email_lower)"
    by code_simp
  have 3: "ed_html email_upper = ed_html email_lower"
    by (simp add: email_upper_def email_lower_def)
  have 4: "ed_plain_text email_upper = ed_plain_text email_lower"
    by (simp add: email_upper_def email_lower_def)
  have 5: "ed_subject email_upper \<noteq> ed_subject email_lower"
    by (simp add: email_upper_def email_lower_def)
  have 6: "ed_from_email email_upper \<noteq> ed_from_email email_lower"
    by (simp add: email_upper_def email_lower_def)
  from score_ignores_case_of_subject_and_sender [OF 1 2 3 4] 1 2 5 6 show ?thesis by simp
qed

section \<open>Reachable states and the review workflow\<close>

subsection \<open>ORDER BY and LIMIT\<close>

lemma set_order_by_desc [simp]: "set (order_by_desc k rows) = set rows"
  by (simp add: order_by_desc_def)

lemma length_order_by_desc [simp]: "length (order_by_desc k rows) = length rows"
  by (simp add: order_by_desc_def)

lemma order_by_desc_Nil [simp]: "order_by_desc k [] = []"
  by (simp add: order_by_desc_def)

lemma sorted_order_by_desc: "sorted_wrt (\<lambda>a b. k b \<le> k a) (order_by_desc k rows)"
proof -
  have "sorted (map k (sort_key k (rev rows)))" by (rule sorted_sort_key)
  then have "sorted_wrt (\<lambda>a b. k a \<le> k b) (sort_key k (rev rows))"
    by (simp add: sorted_map)
  then show ?thesis
    by (simp add: order_by_desc_def sorted_wrt_rev)
qed

lemma insort_key_greatest:
  "\<forall>y\<in>set ys. k y < k x \<Longrightarrow> insort_key k x ys = ys @ [x]"
  by (induction ys) auto

lemma order_by_desc_snoc_latest:
  assumes "\<forall>y\<in>set rows. k y < k x"
  shows "order_by_desc k (rows @ [x]) = x # order_by_desc k rows"
proof -
  have "\<forall>y\<in>set (sort_key k (rev rows)). k y < k x" using assms by simp
  then have "insort_key k x (sort_key k (rev rows)) = sort_key k (rev rows) @ [x]"
    by (rule insort_key_greatest)
  then show ?thesis by (simp add: order_by_desc_def)
qed

lemma sql_limit_subset: "set (sql_limit n rows) \<subseteq> set rows"
  by (auto simp: sql_limit_def dest: in_set_takeD)

lemma length_sql_limit: "0 \<le> n \<Longrightarrow> int (length (sql_limit n rows)) \<le> n"
  by (simp add: sql_limit_def)

lemma sorted_wrt_sql_limit: "sorted_wrt P rows \<Longrightarrow> sorted_wrt P (sql_limit n rows)"
  by (simp add: sql_limit_def sorted_wrt_take)

subsection \<open>The invariant\<close>

lemma consistent_init: "consistent initDatabase"
  by (simp add: consistent_def initDatabase_def)

lemma consistent_insert_candidate:
  assumes "consistent db"
  shows "consistent (insert_candidate now db c)"
proof (cases "list_ex (\<lambda>x. message_id x = message_id c) (email_candidates db)")
  case True
  with assms show ?thesis
    by (auto simp: consistent_def insert_candidate_def Let_def list_all_iff)
next
  case False
  then have fresh: "message_id c \<notin> message_id ` set (email_candidates db)"
    by (auto simp: list_ex_iff)
  from assms have "Suc (email_candidates_seq db) \<notin> c_id ` set (email_candidates db)"
    by (auto simp: consistent_def list_all_iff)
  with assms False fresh show ?thesis
    by (auto simp: consistent_def insert_candidate_def Let_def list_all_iff new_candidate_row_def)
qed

lemma consistent_foldl_insert_candidate:
  "consistent db \<Longrightarrow> consistent (foldl (insert_candidate now) db cs)"
  by (induction cs arbitrary: db) (simp_all add: consistent_insert_candidate)

lemma consistent_insertCandidates:
  "consistent db \<Longrightarrow> consistent (snd (insertCandidates db now cs))"
  by (simp add: insertCandidates_def consistent_foldl_insert_candidate)

lemma consistent_insertReviewDecision:
  assumes "consistent db"
  shows "consistent (insertReviewDecision db now cid mid verdict nts)"
proof -
  from assms have "Suc (review_decisions_seq db) \<notin> d_id ` set (review_decisions db)"
    by (auto simp: consistent_def list_all_iff)
  with assms show ?thesis
    by (auto simp: consistent_def insertReviewDecision_def Let_def list_all_iff)
qed

lemma c_id_set_reviewed [simp]:
  "c_id \<circ> (\<lambda>c. if c_id c = cid then c\<lparr>reviewed := v\<rparr> else c) = c_id"
  by (auto simp: fun_eq_iff)

lemma message_id_set_reviewed [simp]:
  "message_id \<circ> (\<lambda>c::EmailCandidate. if c_id c = cid then c\<lparr>reviewed := v\<rparr> else c) = message_id"
  by (auto simp: fun_eq_iff)

lemma consistent_markAsReviewed: "consistent db \<Longrightarrow> consistent (markAsReviewed db cid)"
  by (auto simp: consistent_def markAsReviewed_def list_all_iff)

lemma consistent_markAsUnreviewed: "consistent db \<Longrightarrow> consistent (markAsUnreviewed db cid)"
  by (auto simp: consistent_def markAsUnreviewed_def list_all_iff)

lemma consistent_insertConfirmedFlight:
  "consistent db \<Longrightarrow> consistent (insertConfirmedFlight db now mid uid subj)"
  by (simp add: consistent_def insertConfirmedFlight_def Let_def)

lemma consistent_deleteDecision: "consistent db \<Longrightarrow> consistent (deleteDecision db did)"
  by (auto simp: consistent_def deleteDecision_def list_all_iff distinct_map_filter)

lemma reachable_consistent: "reachable db \<Longrightarrow> consistent db"
proof (induction rule: reachable.induct)
  case reach_init
  show ?case by (rule consistent_init)
next
  case (reach_insertCandidates db now cs)
  then show ?case by (simp add: consistent_insertCandidates)
next
  case (reach_insertReviewDecision db now cid mid verdict nts)
  then show ?case by (simp add: consistent_insertReviewDecision)
next
  case (reach_markAsReviewed db cid)
  then show ?case by (simp add: consistent_markAsReviewed)
next
  case (reach_markAsUnreviewed db cid)
  then show ?case by (simp add: consistent_markAsUnreviewed)
next
  case (reach_insertConfirmedFlight db now mid uid subj)
  then show ?case by (simp add: consistent_insertConfirmedFlight)
next
  case (reach_deleteDecision db did)
  then show ?case by (simp add: consistent_deleteDecision)
qed

subsection \<open>The handlers keep the state reachable\<close>

lemma reachable_post_review:
  "reachable db \<Longrightarrow> reachable (snd (post_review db failing now decision))"
  by (auto simp: post_review_def Let_def split: option.splits
      intro!: reachable.intros)

lemma reachable_post_undo: "reachable db \<Longrightarrow> reachable (snd (post_undo db failing))"
  by (auto simp: post_undo_def Let_def split: option.splits intro!: reachable.intros)

lemma reachable_db_one: "reachable db_one"
  unfolding db_one_def by (intro reachable.intros)

lemma reachable_db_two: "reachable db_two"
  unfolding db_two_def by (intro reachable.intros)

lemma reachable_db_one_confirmed: "reachable db_one_confirmed"
  unfolding db_one_confirmed_def by (intro reachable_post_review reachable_db_one)

lemma reachable_db_one_twice: "reachable db_one_twice"
  unfolding db_one_twice_def by (intro reachable_post_review reachable_db_one_confirmed)

lemma reachable_db_two_reviewed: "reachable db_two_reviewed"
  unfolding db_two_reviewed_def by (intro reachable_post_review reachable_db_two)

subsection \<open>Counts\<close>

lemma length_split_reviewed:
  "list_all (\<lambda>c. reviewed c = 0 \<or> reviewed c = 1) rows \<Longrightarrow>
   length rows = length (filter (\<lambda>c. reviewed c = 1) rows)
               + length (filter (\<lambda>c. reviewed c = 0) rows)"
  by (induction rows) auto

text \<open>
  Claim C5. In every reachable state the number of candidates is the number of reviewed
  candidates plus the number of unreviewed ones: the statements of the database manager only
  ever write 0 or 1 into \<open>reviewed\<close>, and the two counts select these two values.
\<close>

theorem count_invariant:
  assumes "reachable db"
  shows "countTotalCandidates db = countReviewed db + countUnreviewed db"
proof -
  from assms have "consistent db" by (rule reachable_consistent)
  then have "list_all (\<lambda>c. reviewed c = 0 \<or> reviewed c = 1) (email_candidates db)"
    by (simp add: consistent_def list_all_iff)
  then show ?thesis
    unfolding countTotalCandidates_def countReviewed_def countUnreviewed_def
    by (rule length_split_reviewed)
qed

theorem count_invariant_witness:
  "reachable db_two_reviewed
   \<and> countTotalCandidates db_two_reviewed = countReviewed db_two_reviewed + countUnreviewed db_two_reviewed
   \<and> reachable db_one_confirmed
   \<and> countTotalCandidates db_one_confirmed = countReviewed db_one_confirmed + countUnreviewed db_one_confirmed"
  using count_invariant [OF reachable_db_two_reviewed] count_invariant [OF reachable_db_one_confirmed]
    reachable_db_two_reviewed reachable_db_one_confirmed
  by simp


subsection \<open>The most recent decision\<close>

lemma getLastDecision_eq:
  "getLastDecision db =
     (case order_by_desc reviewed_at (review_decisions db) of [] \<Rightarrow> None | d # _ \<Rightarrow> Some d)"
  by (cases "order_by_desc reviewed_at (review_decisions db)")
     (simp_all add: getLastDecision_def sql_limit_def)

lemma getLastDecision_None_iff: "getLastDecision db = None \<longleftrightarrow> review_decisions db = []"
proof -
  have "order_by_desc reviewed_at (review_decisions db) = [] \<longleftrightarrow> review_decisions db = []"
    by (metis length_order_by_desc length_0_conv)
  then show ?thesis
    by (cases "order_by_desc reviewed_at (review_decisions db)")
       (auto simp: getLastDecision_eq)
qed

lemma getLastDecision_in_set:
  assumes "getLastDecision db = Some d"
  shows "d \<in> set (review_decisions db)"
proof -
  from assms obtain ds where "order_by_desc reviewed_at (review_decisions db) = d # ds"
    by (auto simp: getLastDecision_eq split: list.splits)
  then have "d \<in> set (order_by_desc reviewed_at (review_decisions db))" by simp
  then show ?thesis by simp
qed

lemma getLastDecision_latest:
  assumes "review_decisions db' = review_decisions db @ [x]"
    and "\<forall>d\<in>set (review_decisions db). reviewed_at d < reviewed_at x"
  shows "getLastDecision db' = Some x"
  using assms by (simp add: getLastDecision_eq order_by_desc_snoc_latest)

lemma length_filter_other_id:
  "distinct (map f rows) \<Longrightarrow> x \<in> set rows \<Longrightarrow>
   Suc (length (filter (\<lambda>y. f y \<noteq> f x) rows)) = length rows"
proof (induction rows)
  case Nil
  then show ?case by simp
next
  case (Cons r rows)
  show ?case
  proof (cases "r = x")
    case True
    with Cons.prems have "f x \<notin> f ` set rows" by simp
    then have "\<forall>y\<in>set rows. f y \<noteq> f x" by (metis imageI)
    then have "filter (\<lambda>y. f y \<noteq> f x) rows = rows" by (simp add: filter_id_conv)
    with True show ?thesis by simp
  next
    case False
    with Cons.prems have "x \<in> set rows" and "f r \<noteq> f x" and "distinct (map f rows)"
      by auto
    with Cons.IH show ?thesis by simp
  qed
qed

subsection \<open>Undo\<close>


lemma post_undo_some:
  "getLastDecision db = Some d \<Longrightarrow>
   post_undo db None =
     (UndoSuccess (d_message_id d),
      markAsUnreviewed (deleteDecision db (d_id d)) (email_candidate_id d))"
  by (simp add: post_undo_def)

lemma review_decisions_markAsUnreviewed [simp]:
  "review_decisions (markAsUnreviewed db cid) = review_decisions db"
  by (simp add: markAsUnreviewed_def)

lemma review_decisions_deleteDecision [simp]:
  "review_decisions (deleteDecision db did) = filter (\<lambda>d. d_id d \<noteq> did) (review_decisions db)"
  by (simp add: deleteDecision_def)



text \<open>Undo has as many levels as the log has rows.\<close>

lemma undo_twice_succeeds:
  assumes "reachable db" and "2 \<le> length (review_decisions db)"
  shows "\<exists>m m'. fst (post_undo db None) = UndoSuccess m
             \<and> fst (post_undo (snd (post_undo db None)) None) = UndoSuccess m'"
proof -
  from assms(2) have "review_decisions db \<noteq> []" by auto
  then obtain d where d: "getLastDecision db = Some d"
    by (auto simp: getLastDecision_None_iff [symmetric])
  then have undo: "post_undo db None =
      (UndoSuccess (d_message_id d),
       markAsUnreviewed (deleteDecision db (d_id d)) (email_candidate_id d))"
    by (rule post_undo_some)
  from assms(1) have "distinct (map d_id (review_decisions db))"
    using reachable_consistent by (auto simp: consistent_def)
  with d have "Suc (length (filter (\<lambda>y. d_id y \<noteq> d_id d) (review_decisions db)))
      = length (review_decisions db)"
    by (intro length_filter_other_id getLastDecision_in_set)
  with assms(2) have "review_decisions (snd (post_undo db None)) \<noteq> []"
    by (auto simp: undo)
  then obtain d' where "getLastDecision (snd (post_undo db None)) = Some d'"
    by (auto simp: getLastDecision_None_iff [symmetric])
  then have "fst (post_undo (snd (post_undo db None)) None) = UndoSuccess (d_message_id d')"
    by (simp add: post_undo_some)
  with undo show ?thesis by simp
qed


subsection \<open>Submitting a decision\<close>

lemma getCandidateByMessageId_Some:
  assumes "getCandidateByMessageId db m = Some c"
  shows "c \<in> set (email_candidates db)" and "message_id c = m"
  using assms by (auto simp: getCandidateByMessageId_def find_Some_iff)

text \<open>The state a successful submission leaves, and the states of its three steps.\<close>

lemma post_review_steps:
  assumes "getCandidateByMessageId db m = Some c" and "m \<noteq> []"
  shows "post_review db failing now
           \<lparr>email_id = Some m, rq_is_flight_confirmation = Some v, rq_notes = n\<rparr> =
         (if failing = Some Call_getCandidateByMessageId \<or> failing = Some Call_insertReviewDecision
          then (ReviewFailed, db)
          else if failing = Some Call_markAsReviewed
          then (ReviewFailed, insertReviewDecision db now (c_id c) m v n)
          else if v \<and> failing = Some Call_insertConfirmedFlight
          then (ReviewFailed, markAsReviewed (insertReviewDecision db now (c_id c) m v n) (c_id c))
          else if failing = Some Call_countUnreviewed
          then (ReviewFailed,
                if v then insertConfirmedFlight
                            (markAsReviewed (insertReviewDecision db now (c_id c) m v n) (c_id c))
                            now m (gmail_uid c) (subject c)
                else markAsReviewed (insertReviewDecision db now (c_id c) m v n) (c_id c))
          else (ReviewSuccess
                  (countUnreviewed (markAsReviewed (insertReviewDecision db now (c_id c) m v n) (c_id c))),
                if v then insertConfirmedFlight
                            (markAsReviewed (insertReviewDecision db now (c_id c) m v n) (c_id c))
                            now m (gmail_uid c) (subject c)
                else markAsReviewed (insertReviewDecision db now (c_id c) m v n) (c_id c)))"
  using assms
  by (simp add: post_review_def Let_def countUnreviewed_def insertConfirmedFlight_def)

lemma set_reviewed_same:
  assumes "distinct (map c_id rows)" and "c \<in> set rows" and "reviewed c = v"
  shows "map (\<lambda>x. if c_id x = c_id c then x\<lparr>reviewed := v\<rparr> else x) rows = rows"
proof (rule map_idI)
  fix x assume x: "x \<in> set rows"
  show "(if c_id x = c_id c then x\<lparr>reviewed := v\<rparr> else x) = x"
  proof (cases "c_id x = c_id c")
    case True
    from assms(1) have "inj_on c_id (set rows)" by (simp add: distinct_map)
    with True x assms(2) have "x = c" by (auto dest: inj_onD)
    with assms(3) show ?thesis by simp
  next
    case False
    then show ?thesis by simp
  qed
qed

lemma find_set_reviewed:
  "find (\<lambda>x. message_id x = m) (map (\<lambda>x. if c_id x = cid then x\<lparr>reviewed := v\<rparr> else x) rows)
   = map_option (\<lambda>x. if c_id x = cid then x\<lparr>reviewed := v\<rparr> else x)
       (find (\<lambda>x. message_id x = m) rows)"
  by (induction rows) auto

lemma other_rows_unchanged:
  "c_id c \<notin> c_id ` set rows \<Longrightarrow>
   map (\<lambda>x. if c_id x = c_id c then x\<lparr>reviewed := v\<rparr> else x) rows = rows"
  by (induction rows) auto

lemma count_after_set_unreviewed:
  assumes "distinct (map c_id rows)" and "c \<in> set rows"
  shows "length (filter (\<lambda>x. reviewed x = 0)
           (map (\<lambda>x. if c_id x = c_id c then x\<lparr>reviewed := 0\<rparr> else x) rows))
         = length (filter (\<lambda>x. reviewed x = 0) rows) + (if reviewed c = 0 then 0 else 1)"
  using assms
proof (induction rows)
  case Nil
  then show ?case by simp
next
  case (Cons r rows)
  show ?case
  proof (cases "r = c")
    case True
    from Cons.prems True have "c_id c \<notin> c_id ` set rows" by simp
    then have eq: "map (\<lambda>x. if c_id x = c_id c then x\<lparr>reviewed := 0\<rparr> else x) rows = rows"
      by (rule other_rows_unchanged)
    show ?thesis unfolding True by (simp add: eq)
  next
    case False
    with Cons.prems have in_rows: "c \<in> set rows" and dist: "distinct (map c_id rows)"
      and other: "c_id r \<noteq> c_id c"
      by (auto simp: image_iff)
    from Cons.IH [OF dist in_rows] other show ?thesis by simp
  qed
qed

lemma set_reviewed_twice:
  "map (\<lambda>x. if c_id x = cid then x\<lparr>reviewed := w\<rparr> else x)
     (map (\<lambda>x. if c_id x = cid then x\<lparr>reviewed := v\<rparr> else x) rows)
   = map (\<lambda>x. if c_id x = cid then x\<lparr>reviewed := w\<rparr> else x) rows"
  by (induction rows) auto

lemma filter_old_decisions:
  assumes "list_all (\<lambda>d. d_id d \<le> n) ds"
  shows "filter (\<lambda>d. d_id d \<noteq> Suc n) ds = ds"
  using assms by (induction ds) auto

text \<open>
  Claim C10. The review handler does not look at the \<open>reviewed\<close> flag. In a reachable
  state, a submission for a candidate that is already reviewed succeeds, appends one more
  row to the decision log, leaves the candidate table as it is (the candidate stays
  reviewed) and raises the sum of the confirmed and the rejected count by one, the number
  of candidates being the same. So the two counts, taken over decision rows, can together
  exceed the number of candidates: they do in the reachable state \<open>db_one_twice\<close>.
\<close>

theorem review_of_reviewed_candidate:
  fixes db :: Database and m :: string and v :: bool and n :: "string option" and now :: nat
  defines "request \<equiv> \<lparr>email_id = Some m, rq_is_flight_confirmation = Some v, rq_notes = n\<rparr>"
  defines "db' \<equiv> snd (post_review db None now request)"
  assumes reach: "reachable db" and found: "getCandidateByMessageId db m = Some c"
    and reviewed: "reviewed c = 1" and nonempty: "m \<noteq> []"
  shows "fst (post_review db None now request) = ReviewSuccess (countUnreviewed db)
       \<and> review_decisions db' = review_decisions db @
            [\<lparr>d_id = Suc (review_decisions_seq db), email_candidate_id = c_id c,
              d_message_id = m, is_flight_confirmation = (if v then 1 else 0),
              reviewed_at = now, d_notes = n\<rparr>]
       \<and> email_candidates db' = email_candidates db
       \<and> getCandidateByMessageId db' m = Some c
       \<and> countTotalCandidates db' = countTotalCandidates db
       \<and> countConfirmedFlights db' + countRejected db'
           = Suc (countConfirmedFlights db + countRejected db)
       \<and> reachable db_one_twice
       \<and> countTotalCandidates db_one_twice < countConfirmedFlights db_one_twice + countRejected db_one_twice"
proof -
  from reach have "consistent db" by (rule reachable_consistent)
  then have dist: "distinct (map c_id (email_candidates db))" by (simp add: consistent_def)
  have c: "c \<in> set (email_candidates db)"
    using found by (rule getCandidateByMessageId_Some)
  have same: "map (\<lambda>x. if c_id x = c_id c then x\<lparr>reviewed := 1\<rparr> else x) (email_candidates db)
      = email_candidates db"
    using dist c reviewed by (rule set_reviewed_same)
  have cands: "email_candidates db' = email_candidates db"
    using same
    by (simp add: db'_def request_def post_review_steps [OF found nonempty]
        markAsReviewed_def insertReviewDecision_def insertConfirmedFlight_def Let_def)
  have decs: "review_decisions db' = review_decisions db @
            [\<lparr>d_id = Suc (review_decisions_seq db), email_candidate_id = c_id c,
              d_message_id = m, is_flight_confirmation = (if v then 1 else 0),
              reviewed_at = now, d_notes = n\<rparr>]"
    by (simp add: db'_def request_def post_review_steps [OF found nonempty]
        markAsReviewed_def insertReviewDecision_def insertConfirmedFlight_def Let_def)
  have resp: "fst (post_review db None now request) = ReviewSuccess (countUnreviewed db)"
    using same
    by (simp add: request_def post_review_steps [OF found nonempty] countUnreviewed_def
        markAsReviewed_def insertReviewDecision_def Let_def)
  have found': "getCandidateByMessageId db' m = Some c"
    using found cands by (simp add: getCandidateByMessageId_def)
  have total: "countTotalCandidates db' = countTotalCandidates db"
    using cands by (simp add: countTotalCandidates_def)
  have counts: "countConfirmedFlights db' + countRejected db'
      = Suc (countConfirmedFlights db + countRejected db)"
    by (simp add: decs countConfirmedFlights_def countRejected_def)
  have ex: "countTotalCandidates db_one_twice
      < countConfirmedFlights db_one_twice + countRejected db_one_twice"
    by code_simp
  from resp decs cands found' total counts reachable_db_one_twice ex show ?thesis by simp
qed

theorem review_of_reviewed_candidate_witness:
  "reachable db_one_confirmed
   \<and> getCandidateByMessageId db_one_confirmed ''msg1''
       = Some (the (getCandidateByMessageId db_one_confirmed ''msg1''))
   \<and> reviewed (the (getCandidateByMessageId db_one_confirmed ''msg1'')) = 1
   \<and> fst (post_review db_one_confirmed None 2
            \<lparr>email_id = Some ''msg1'', rq_is_flight_confirmation = Some False, rq_notes = None\<rparr>)
       = ReviewSuccess (countUnreviewed db_one_confirmed)
   \<and> email_candidates (snd (post_review db_one_confirmed None 2
            \<lparr>email_id = Some ''msg1'', rq_is_flight_confirmation = Some False, rq_notes = None\<rparr>))
       = email_candidates db_one_confirmed
   \<and> countConfirmedFlights (snd (post_review db_one_confirmed None 2
            \<lparr>email_id = Some ''msg1'', rq_is_flight_confirmation = Some False, rq_notes = None\<rparr>))
       + countRejected (snd (post_review db_one_confirmed None 2
            \<lparr>email_id = Some ''msg1'', rq_is_flight_confirmation = Some False, rq_notes = None\<rparr>))
       = Suc (countConfirmedFlights db_one_confirmed + countRejected db_one_confirmed)"
proof -
  let ?c = "the (getCandidateByMessageId db_one_confirmed ''msg1'')"
  have c: "getCandidateByMessageId db_one_confirmed ''msg1'' = Some ?c" by code_simp
  have r: "reviewed ?c = 1" by code_simp
  have ne: "''msg1'' \<noteq> []" by simp
  note T = review_of_reviewed_candidate [OF reachable_db_one_confirmed c r ne, of 2 False None]
  show ?thesis
    by (intro conjI) (use T reachable_db_one_confirmed c r in \<open>blast+\<close>)
qed


lemma reachable_db_two_one: "reachable db_two_one"
  unfolding db_two_one_def by (intro reachable_post_review reachable_db_two)

subsection \<open>Submitting a decision and undoing it\<close>

text \<open>
  Claim C1, as stated, fails. Undo deletes the decision row and clears the flag, and never
  touches \<open>confirmed_flights\<close>: after a positive decision and its undo the decision log
  is empty again and the confirmed flight is still there. And a decision on a candidate
  that was reviewed already, once undone, leaves one more unreviewed candidate than before
  the decision.
\<close>

theorem review_then_undo_counterexample:
  "confirmed_flights db_one = []
   \<and> review_decisions (snd (post_undo db_one_confirmed None)) = []
   \<and> map f_message_id (confirmed_flights (snd (post_undo db_one_confirmed None))) = [''msg1'']
   \<and> countUnreviewed db_one_confirmed = 0
   \<and> fst (post_review db_one_confirmed None 2 (review_request ''msg1'' False)) = ReviewSuccess 0
   \<and> countUnreviewed
        (snd (post_undo (snd (post_review db_one_confirmed None 2 (review_request ''msg1'' False)))
           None)) = 1"
  by code_simp

text \<open>
  Claim C1, amended. In a reachable state, for a stored candidate with a non-empty message
  id, a decision submitted at a clock value later than the timestamp of every logged
  decision, followed at once by undo: both calls succeed, the candidate is stored unchanged
  but for \<open>reviewed = 0\<close>, the decision log is the one before the decision, and the
  unreviewed count is the one before the decision if the candidate was unreviewed then (one
  more if it was reviewed); in the first case the whole candidate table is as before. The
  confirmed flights are those the decision left: a positive decision leaves an entry for
  the candidate, and undo does not remove it.
\<close>

theorem review_then_undo:
  fixes db :: Database and m :: string and v :: bool and n :: "string option" and now :: nat
  defines "request \<equiv> \<lparr>email_id = Some m, rq_is_flight_confirmation = Some v, rq_notes = n\<rparr>"
  defines "db1 \<equiv> snd (post_review db None now request)"
  defines "db2 \<equiv> snd (post_undo db1 None)"
  assumes reach: "reachable db" and found: "getCandidateByMessageId db m = Some c"
    and nonempty: "m \<noteq> []"
    and later: "\<forall>d\<in>set (review_decisions db). reviewed_at d < now"
  shows "fst (post_review db None now request) = ReviewSuccess (countUnreviewed db1)
       \<and> fst (post_undo db1 None) = UndoSuccess m
       \<and> getCandidateByMessageId db2 m = Some (c\<lparr>reviewed := 0\<rparr>)
       \<and> review_decisions db2 = review_decisions db
       \<and> countUnreviewed db2 = countUnreviewed db + (if reviewed c = 0 then 0 else 1)
       \<and> (reviewed c = 0 \<longrightarrow> email_candidates db2 = email_candidates db)
       \<and> confirmed_flights db2 = confirmed_flights db1
       \<and> (v \<longrightarrow> m \<in> f_message_id ` set (confirmed_flights db2))"
proof -
  let ?d = "\<lparr>d_id = Suc (review_decisions_seq db), email_candidate_id = c_id c,
             d_message_id = m, is_flight_confirmation = (if v then 1 else 0),
             reviewed_at = now, d_notes = n\<rparr>"
  let ?mark = "\<lambda>w x. if c_id x = c_id c then x\<lparr>reviewed := w\<rparr> else x"
  note steps = post_review_steps [OF found nonempty, of None now v n]
  from reach have cons: "consistent db" by (rule reachable_consistent)
  then have dist: "distinct (map c_id (email_candidates db))"
    and old: "list_all (\<lambda>d. d_id d \<le> review_decisions_seq db) (review_decisions db)"
    by (simp_all add: consistent_def)
  have c: "c \<in> set (email_candidates db)"
    using found by (rule getCandidateByMessageId_Some)
  have resp1: "fst (post_review db None now request) = ReviewSuccess (countUnreviewed db1)"
    by (simp add: db1_def request_def steps countUnreviewed_def insertConfirmedFlight_def
        Let_def)
  have cands1: "email_candidates db1 = map (?mark 1) (email_candidates db)"
    by (simp add: db1_def request_def steps markAsReviewed_def insertReviewDecision_def
        insertConfirmedFlight_def Let_def)
  have decs1: "review_decisions db1 = review_decisions db @ [?d]"
    by (simp add: db1_def request_def steps markAsReviewed_def insertReviewDecision_def
        insertConfirmedFlight_def Let_def)
  have db1_eq: "db1 =
      (if v then insertConfirmedFlight
                   (markAsReviewed (insertReviewDecision db now (c_id c) m v n) (c_id c))
                   now m (gmail_uid c) (subject c)
       else markAsReviewed (insertReviewDecision db now (c_id c) m v n) (c_id c))"
    by (simp add: db1_def request_def steps)
  have conf1: "v \<longrightarrow> m \<in> f_message_id ` set (confirmed_flights db1)"
    unfolding db1_eq by (auto simp: insertConfirmedFlight_def Let_def list_ex_iff)
  from later have "\<forall>d\<in>set (review_decisions db). reviewed_at d < reviewed_at ?d" by simp
  with decs1 have "getLastDecision db1 = Some ?d" by (rule getLastDecision_latest)
  then have "post_undo db1 None =
      (UndoSuccess (d_message_id ?d),
       markAsUnreviewed (deleteDecision db1 (d_id ?d)) (email_candidate_id ?d))"
    by (rule post_undo_some)
  then have undo: "post_undo db1 None =
      (UndoSuccess m, markAsUnreviewed (deleteDecision db1 (Suc (review_decisions_seq db))) (c_id c))"
    by simp
  have resp2: "fst (post_undo db1 None) = UndoSuccess m" by (simp add: undo)
  have "filter (\<lambda>d. d_id d \<noteq> Suc (review_decisions_seq db)) (review_decisions db)
      = review_decisions db"
    using old by (rule filter_old_decisions)
  then have decs2: "review_decisions db2 = review_decisions db"
    by (simp add: db2_def undo decs1)
  have cands2: "email_candidates db2 = map (?mark 0) (email_candidates db)"
    by (simp add: db2_def undo markAsUnreviewed_def deleteDecision_def cands1
        set_reviewed_twice)
  have conf2: "confirmed_flights db2 = confirmed_flights db1"
    by (simp add: db2_def undo markAsUnreviewed_def deleteDecision_def)
  have "getCandidateByMessageId db2 m
      = map_option (?mark 0) (find (\<lambda>x. message_id x = m) (email_candidates db))"
    unfolding getCandidateByMessageId_def cands2 by (rule find_set_reviewed)
  also have "\<dots> = Some (c\<lparr>reviewed := 0\<rparr>)"
    using found by (simp add: getCandidateByMessageId_def)
  finally have found2: "getCandidateByMessageId db2 m = Some (c\<lparr>reviewed := 0\<rparr>)" .
  have count2: "countUnreviewed db2 = countUnreviewed db + (if reviewed c = 0 then 0 else 1)"
    unfolding countUnreviewed_def cands2 using dist c by (rule count_after_set_unreviewed)
  have same: "reviewed c = 0 \<longrightarrow> email_candidates db2 = email_candidates db"
    unfolding cands2 using dist c by (auto intro: set_reviewed_same)
  from resp1 resp2 found2 decs2 count2 same conf2 conf1 show ?thesis by simp
qed

theorem review_then_undo_witness:
  "reachable db_two_one
   \<and> getCandidateByMessageId db_two_one ''msg2''
       = Some (the (getCandidateByMessageId db_two_one ''msg2''))
   \<and> review_decisions db_two_one \<noteq> []
   \<and> map reviewed_at (review_decisions db_two_one) = [1]
   \<and> fst (post_undo (snd (post_review db_two_one None 2
             \<lparr>email_id = Some ''msg2'', rq_is_flight_confirmation = Some True, rq_notes = None\<rparr>))
           None) = UndoSuccess ''msg2''
   \<and> review_decisions (snd (post_undo (snd (post_review db_two_one None 2
             \<lparr>email_id = Some ''msg2'', rq_is_flight_confirmation = Some True, rq_notes = None\<rparr>))
           None)) = review_decisions db_two_one
   \<and> countUnreviewed (snd (post_undo (snd (post_review db_two_one None 2
             \<lparr>email_id = Some ''msg2'', rq_is_flight_confirmation = Some True, rq_notes = None\<rparr>))
           None)) = countUnreviewed db_two_one
   \<and> email_candidates (snd (post_undo (snd (post_review db_two_one None 2
             \<lparr>email_id = Some ''msg2'', rq_is_flight_confirmation = Some True, rq_notes = None\<rparr>))
           None)) = email_candidates db_two_one
   \<and> ''msg2'' \<in> f_message_id ` set (confirmed_flights (snd (post_undo (snd (post_review db_two_one None 2
             \<lparr>email_id = Some ''msg2'', rq_is_flight_confirmation = Some True, rq_notes = None\<rparr>))
           None)))"
proof -
  let ?c = "the (getCandidateByMessageId db_two_one ''msg2'')"
  have c: "getCandidateByMessageId db_two_one ''msg2'' = Some ?c" by code_simp
  have r: "reviewed ?c = 0" by code_simp
  have ne: "''msg2'' \<noteq> []" by simp
  have log: "review_decisions db_two_one \<noteq> []" by code_simp
  have times: "map reviewed_at (review_decisions db_two_one) = [1]" by code_simp
  have later: "\<forall>d\<in>set (review_decisions db_two_one). reviewed_at d < 2" by code_simp
  note T = review_then_undo [OF reachable_db_two_one c ne later, of True None]
  from T r have count: "countUnreviewed (snd (post_undo (snd (post_review db_two_one None 2
             \<lparr>email_id = Some ''msg2'', rq_is_flight_confirmation = Some True, rq_notes = None\<rparr>))
           None)) = countUnreviewed db_two_one"
    by simp
  show ?thesis
    by (intro conjI) (use T count reachable_db_two_one c r log times in \<open>blast+\<close>)
qed

subsection \<open>A submission that fails\<close>

lemma insertReviewDecision_changes: "insertReviewDecision db now cid mid verdict nts \<noteq> db"
proof
  assume "insertReviewDecision db now cid mid verdict nts = db"
  then have "review_decisions_seq (insertReviewDecision db now cid mid verdict nts)
      = review_decisions_seq db"
    by simp
  then show False by (simp add: insertReviewDecision_def Let_def)
qed

text \<open>
  Claim C2, as stated, fails. The handler opens no transaction, so when
  \<open>markAsReviewed\<close> throws, the decision row written just before stays: the caller gets a
  500, the log holds a decision for \<open>msg1\<close>, and no candidate is flagged reviewed.
\<close>

theorem failed_review_counterexample:
  "fst (post_review db_one (Some Call_markAsReviewed) 1 (review_request ''msg1'' True))
     = ReviewFailed
   \<and> review_decisions db_one = []
   \<and> map d_message_id
        (review_decisions
           (snd (post_review db_one (Some Call_markAsReviewed) 1 (review_request ''msg1'' True))))
     = [''msg1'']
   \<and> countReviewed
        (snd (post_review db_one (Some Call_markAsReviewed) 1 (review_request ''msg1'' True)))
     = 0"
  by code_simp

text \<open>
  Claim C2, amended. A submission that is answered InvalidInput or NotFound leaves the state
  as it was, and so does one whose candidate lookup or whose decision insert throws. When a
  later call throws, the caller gets a 500 and the writes made before it stay: the decision
  row when \<open>markAsReviewed\<close> throws (the state differs from the one before the call, the
  candidate table does not), the decision row and the flag when \<open>insertConfirmedFlight\<close>
  throws, and all the writes of a successful submission when the final count throws.
\<close>

theorem failed_review_state:
  fixes db :: Database and m :: string and v :: bool and n :: "string option" and now :: nat
    and c :: EmailCandidate
  defines "request \<equiv> \<lparr>email_id = Some m, rq_is_flight_confirmation = Some v, rq_notes = n\<rparr>"
  defines "db1 \<equiv> insertReviewDecision db now (c_id c) m v n"
  assumes found: "getCandidateByMessageId db m = Some c" and nonempty: "m \<noteq> []"
  shows "(fst (post_review db failing now decision) \<in> {ReviewInvalid, ReviewNotFound}
            \<longrightarrow> snd (post_review db failing now decision) = db)
       \<and> post_review db (Some Call_getCandidateByMessageId) now request = (ReviewFailed, db)
       \<and> post_review db (Some Call_insertReviewDecision) now request = (ReviewFailed, db)
       \<and> post_review db (Some Call_markAsReviewed) now request = (ReviewFailed, db1)
       \<and> db1 \<noteq> db
       \<and> review_decisions db1 = review_decisions db @
            [\<lparr>d_id = Suc (review_decisions_seq db), email_candidate_id = c_id c,
              d_message_id = m, is_flight_confirmation = (if v then 1 else 0),
              reviewed_at = now, d_notes = n\<rparr>]
       \<and> email_candidates db1 = email_candidates db
       \<and> (v \<longrightarrow> post_review db (Some Call_insertConfirmedFlight) now request
                  = (ReviewFailed, markAsReviewed db1 (c_id c)))
       \<and> post_review db (Some Call_countUnreviewed) now request
           = (ReviewFailed, snd (post_review db None now request))"
proof -
  note steps = post_review_steps [OF found nonempty, of _ now v n]
  have no_write: "fst (post_review db failing now decision) \<in> {ReviewInvalid, ReviewNotFound}
      \<longrightarrow> snd (post_review db failing now decision) = db"
    by (auto simp: post_review_def Let_def split: option.splits if_splits)
  have f1: "post_review db (Some Call_getCandidateByMessageId) now request = (ReviewFailed, db)"
    by (simp add: request_def steps)
  have f2: "post_review db (Some Call_insertReviewDecision) now request = (ReviewFailed, db)"
    by (simp add: request_def steps)
  have f3: "post_review db (Some Call_markAsReviewed) now request = (ReviewFailed, db1)"
    by (simp add: request_def db1_def steps)
  have changed: "db1 \<noteq> db"
    unfolding db1_def by (rule insertReviewDecision_changes)
  have decs: "review_decisions db1 = review_decisions db @
            [\<lparr>d_id = Suc (review_decisions_seq db), email_candidate_id = c_id c,
              d_message_id = m, is_flight_confirmation = (if v then 1 else 0),
              reviewed_at = now, d_notes = n\<rparr>]"
    by (simp add: db1_def insertReviewDecision_def Let_def)
  have cands: "email_candidates db1 = email_candidates db"
    by (simp add: db1_def insertReviewDecision_def Let_def)
  have "post_review db (Some Call_insertConfirmedFlight) now request
      = (if v then (ReviewFailed, markAsReviewed db1 (c_id c))
         else (ReviewSuccess (countUnreviewed (markAsReviewed db1 (c_id c))),
               markAsReviewed db1 (c_id c)))"
    by (simp add: request_def db1_def steps)
  then have f4: "v \<longrightarrow> post_review db (Some Call_insertConfirmedFlight) now request
                  = (ReviewFailed, markAsReviewed db1 (c_id c))"
    by simp
  have f5: "post_review db (Some Call_countUnreviewed) now request
           = (ReviewFailed, snd (post_review db None now request))"
    by (simp add: request_def steps)
  from no_write f1 f2 f3 changed decs cands f4 f5 show ?thesis by blast
qed

theorem failed_review_state_witness:
  "getCandidateByMessageId db_one ''msg1'' = Some (the (getCandidateByMessageId db_one ''msg1''))
   \<and> fst (post_review db_one None 1 (review_request ''msg9'' True)) = ReviewNotFound
   \<and> snd (post_review db_one None 1 (review_request ''msg9'' True)) = db_one
   \<and> post_review db_one (Some Call_insertReviewDecision) 1
        \<lparr>email_id = Some ''msg1'', rq_is_flight_confirmation = Some True, rq_notes = None\<rparr>
       = (ReviewFailed, db_one)
   \<and> fst (post_review db_one (Some Call_markAsReviewed) 1
        \<lparr>email_id = Some ''msg1'', rq_is_flight_confirmation = Some True, rq_notes = None\<rparr>)
       = ReviewFailed
   \<and> snd (post_review db_one (Some Call_markAsReviewed) 1
        \<lparr>email_id = Some ''msg1'', rq_is_flight_confirmation = Some True, rq_notes = None\<rparr>)
       \<noteq> db_one
   \<and> fst (post_review db_one (Some Call_insertConfirmedFlight) 1
        \<lparr>email_id = Some ''msg1'', rq_is_flight_confirmation = Some True, rq_notes = None\<rparr>)
       = ReviewFailed"
proof -
  let ?c = "the (getCandidateByMessageId db_one ''msg1'')"
  have c: "getCandidateByMessageId db_one ''msg1'' = Some ?c" by code_simp
  have ne: "''msg1'' \<noteq> []" by simp
  have nf: "fst (post_review db_one None 1 (review_request ''msg9'' True)) = ReviewNotFound"
    by code_simp
  note T = failed_review_state [OF c ne, of None 1 "review_request ''msg9'' True" True None]
  show ?thesis
    by (intro conjI) (use T c nf in \<open>simp_all\<close>)
qed

section \<open>Ingestion\<close>

lemma message_id_new_candidate_row [simp]:
  "message_id (new_candidate_row i now c) = message_id c"
  by (simp add: new_candidate_row_def)

lemma insert_candidate_rows:
  "email_candidates (insert_candidate now db c) =
     email_candidates db @
       (if message_id c \<in> message_id ` set (email_candidates db) then []
        else [new_candidate_row (Suc (email_candidates_seq db)) now c])"
proof -
  have "list_ex (\<lambda>x. message_id x = message_id c) (email_candidates db)
      \<longleftrightarrow> message_id c \<in> message_id ` set (email_candidates db)"
    unfolding list_ex_iff image_iff by metis
  then show ?thesis by (simp add: insert_candidate_def Let_def)
qed

lemma insert_candidate_other_tables [simp]:
  "review_decisions (insert_candidate now db c) = review_decisions db"
  "confirmed_flights (insert_candidate now db c) = confirmed_flights db"
  by (simp_all add: insert_candidate_def Let_def)

lemma foldl_insert_candidate_other_tables [simp]:
  "review_decisions (foldl (insert_candidate now) db cs) = review_decisions db"
  "confirmed_flights (foldl (insert_candidate now) db cs) = confirmed_flights db"
  by (induction cs arbitrary: db) simp_all

text \<open>The rows a batch adds: one for each message id of the batch that is not stored yet.\<close>

lemma foldl_insert_candidate_rows:
  "\<exists>rows. email_candidates (foldl (insert_candidate now) db cs) = email_candidates db @ rows
     \<and> distinct (map message_id rows)
     \<and> message_id ` set rows = message_id ` set cs - message_id ` set (email_candidates db)"
proof (induction cs arbitrary: db)
  case Nil
  then show ?case by simp
next
  case (Cons c cs)
  let ?db = "insert_candidate now db c"
  from Cons.IH [of ?db] obtain rows where
    rows: "email_candidates (foldl (insert_candidate now) ?db cs) = email_candidates ?db @ rows"
    and dist: "distinct (map message_id rows)"
    and ids: "message_id ` set rows = message_id ` set cs - message_id ` set (email_candidates ?db)"
    by blast
  show ?case
  proof (cases "message_id c \<in> message_id ` set (email_candidates db)")
    case True
    then have same: "email_candidates ?db = email_candidates db"
      by (simp add: insert_candidate_rows)
    from True ids have "message_id ` set rows
        = message_id ` set (c # cs) - message_id ` set (email_candidates db)"
      unfolding same by auto
    with rows dist show ?thesis unfolding same by auto
  next
    case False
    let ?row = "new_candidate_row (Suc (email_candidates_seq db)) now c"
    from False have more: "email_candidates ?db = email_candidates db @ [?row]"
      by (simp add: insert_candidate_rows)
    from ids have notin: "message_id c \<notin> message_id ` set rows"
      unfolding more by auto
    from ids False have ids': "message_id ` set (?row # rows)
        = message_id ` set (c # cs) - message_id ` set (email_candidates db)"
      unfolding more by auto
    from dist notin have "distinct (map message_id (?row # rows))" by simp
    moreover from rows have "email_candidates (foldl (insert_candidate now) db (c # cs))
        = email_candidates db @ (?row # rows)"
      unfolding more by simp
    ultimately show ?thesis using ids' by blast
  qed
qed

lemma find_append_Some: "find P xs = Some x \<Longrightarrow> find P (xs @ ys) = Some x"
  by (induction xs) (auto split: if_splits)

lemma length_filter_same_id:
  assumes "distinct (map f rows)" and "x \<in> set rows"
  shows "length (filter (\<lambda>y. f y = f x) rows) = 1"
proof -
  have "length (filter (\<lambda>y. f y = f x) rows) + length (filter (\<lambda>y. \<not> f y = f x) rows)
      = length rows"
    by (rule sum_length_filter_compl)
  moreover from assms have "Suc (length (filter (\<lambda>y. f y \<noteq> f x) rows)) = length rows"
    by (rule length_filter_other_id)
  ultimately show ?thesis by simp
qed


text \<open>
  Claim C4. In a reachable state that stores a candidate under message id \<open>m\<close>, ingesting
  any batch returns the length of the batch and leaves exactly one row for \<open>m\<close>, the row
  that was stored before (its content is not overwritten). The number of candidates grows
  by the number of message ids of the batch that were not stored, so rows of the batch with
  the id \<open>m\<close> do not count: the total is the one reached by the batch without them. A
  batch all of whose ids are stored already leaves the candidate table as it is, and no
  batch touches the decisions or the confirmed flights.
\<close>

theorem insertCandidates_idempotent:
  fixes db :: Database and now :: nat and cs :: "CandidateInput list" and m :: string
  defines "db' \<equiv> snd (insertCandidates db now cs)"
  assumes reach: "reachable db" and found: "getCandidateByMessageId db m = Some c"
  shows "fst (insertCandidates db now cs) = length cs
       \<and> length (filter (\<lambda>x. message_id x = m) (email_candidates db')) = 1
       \<and> getCandidateByMessageId db' m = Some c
       \<and> countTotalCandidates db'
           = countTotalCandidates db
             + card (message_id ` set cs - message_id ` set (email_candidates db))
       \<and> countTotalCandidates db'
           = countTotalCandidates
               (snd (insertCandidates db now (filter (\<lambda>x. message_id x \<noteq> m) cs)))
       \<and> (message_id ` set cs \<subseteq> message_id ` set (email_candidates db)
            \<longrightarrow> email_candidates db' = email_candidates db)
       \<and> review_decisions db' = review_decisions db
       \<and> confirmed_flights db' = confirmed_flights db"
proof -
  let ?old = "message_id ` set (email_candidates db)"
  from reach have "consistent db" by (rule reachable_consistent)
  then have dist: "distinct (map message_id (email_candidates db))"
    by (simp add: consistent_def)
  from found have c: "c \<in> set (email_candidates db)" and mc: "message_id c = m"
    by (rule getCandidateByMessageId_Some)+
  then have m_old: "m \<in> ?old" by auto
  have total_of: "\<exists>rows. email_candidates (snd (insertCandidates db now xs))
        = email_candidates db @ rows
      \<and> length rows = card (message_id ` set xs - ?old)
      \<and> message_id ` set rows = message_id ` set xs - ?old" for xs
  proof -
    from foldl_insert_candidate_rows [of now db xs] obtain rows where
      rows: "email_candidates (foldl (insert_candidate now) db xs) = email_candidates db @ rows"
      and d: "distinct (map message_id rows)"
      and ids: "message_id ` set rows = message_id ` set xs - ?old"
      by blast
    from d have "card (set (map message_id rows)) = length (map message_id rows)"
      by (rule distinct_card)
    with ids have "length rows = card (message_id ` set xs - ?old)" by simp
    with rows ids show ?thesis by (auto simp: insertCandidates_def)
  qed
  from total_of [of cs] obtain rows where
    rows: "email_candidates db' = email_candidates db @ rows"
    and len: "length rows = card (message_id ` set cs - ?old)"
    and ids: "message_id ` set rows = message_id ` set cs - ?old"
    unfolding db'_def by blast
  from ids m_old have "m \<notin> message_id ` set rows" by simp
  then have "filter (\<lambda>x. message_id x = m) rows = []"
    by (auto simp: filter_empty_conv)
  moreover from dist c have "length (filter (\<lambda>y. message_id y = message_id c) (email_candidates db)) = 1"
    by (rule length_filter_same_id)
  ultimately have one: "length (filter (\<lambda>x. message_id x = m) (email_candidates db')) = 1"
    by (simp add: rows mc)
  have found': "getCandidateByMessageId db' m = Some c"
    using found by (simp add: getCandidateByMessageId_def rows find_append_Some)
  have total: "countTotalCandidates db' = countTotalCandidates db + card (message_id ` set cs - ?old)"
    by (simp add: countTotalCandidates_def rows len)
  from total_of [of "filter (\<lambda>x. message_id x \<noteq> m) cs"] obtain rows2 where
    rows2: "email_candidates (snd (insertCandidates db now (filter (\<lambda>x. message_id x \<noteq> m) cs)))
        = email_candidates db @ rows2"
    and len2: "length rows2 = card (message_id ` set (filter (\<lambda>x. message_id x \<noteq> m) cs) - ?old)"
    by blast
  from m_old have "message_id ` set (filter (\<lambda>x. message_id x \<noteq> m) cs) - ?old
      = message_id ` set cs - ?old"
    by auto
  with len len2 have "length rows2 = length rows" by simp
  then have without: "countTotalCandidates db'
      = countTotalCandidates (snd (insertCandidates db now (filter (\<lambda>x. message_id x \<noteq> m) cs)))"
    by (simp add: countTotalCandidates_def rows rows2)
  have noop: "message_id ` set cs \<subseteq> ?old \<longrightarrow> email_candidates db' = email_candidates db"
  proof
    assume "message_id ` set cs \<subseteq> ?old"
    with ids have "message_id ` set rows = {}" by auto
    then have "rows = []" by simp
    with rows show "email_candidates db' = email_candidates db" by simp
  qed
  have others: "review_decisions db' = review_decisions db"
    "confirmed_flights db' = confirmed_flights db"
    by (simp_all add: db'_def insertCandidates_def)
  have ret: "fst (insertCandidates db now cs) = length cs"
    by (simp add: insertCandidates_def)
  from ret one found' total without noop others show ?thesis by blast
qed

theorem insertCandidates_idempotent_witness:
  "reachable db_one
   \<and> getCandidateByMessageId db_one ''msg1'' = Some (the (getCandidateByMessageId db_one ''msg1''))
   \<and> confidence_score (the (getCandidateByMessageId db_one ''msg1'')) = 85
   \<and> length (filter (\<lambda>x. message_id x = ''msg1'')
        (email_candidates (snd (insertCandidates db_one 7
           [candidate_input ''msg1'' 99 ''2025-05-05'', candidate_input ''msg2'' 90 ''2024-01-02''])))) = 1
   \<and> getCandidateByMessageId (snd (insertCandidates db_one 7
           [candidate_input ''msg1'' 99 ''2025-05-05'', candidate_input ''msg2'' 90 ''2024-01-02'']))
        ''msg1'' = Some (the (getCandidateByMessageId db_one ''msg1''))
   \<and> countTotalCandidates (snd (insertCandidates db_one 7
           [candidate_input ''msg1'' 99 ''2025-05-05'', candidate_input ''msg2'' 90 ''2024-01-02'']))
       = countTotalCandidates (snd (insertCandidates db_one 7
           (filter (\<lambda>x. message_id x \<noteq> ''msg1'')
              [candidate_input ''msg1'' 99 ''2025-05-05'', candidate_input ''msg2'' 90 ''2024-01-02''])))
   \<and> email_candidates (snd (insertCandidates db_one 7 [candidate_input ''msg1'' 99 ''2025-05-05'']))
       = email_candidates db_one"
proof -
  let ?c = "the (getCandidateByMessageId db_one ''msg1'')"
  have c: "getCandidateByMessageId db_one ''msg1'' = Some ?c" by code_simp
  have sc: "confidence_score ?c = 85" by code_simp
  have sub: "message_id ` set [candidate_input ''msg1'' 99 ''2025-05-05'']
      \<subseteq> message_id ` set (email_candidates db_one)"
    by code_simp
  note T1 = insertCandidates_idempotent [OF reachable_db_one c, of 7
      "[candidate_input ''msg1'' 99 ''2025-05-05'', candidate_input ''msg2'' 90 ''2024-01-02'']"]
  note T2 = insertCandidates_idempotent [OF reachable_db_one c, of 7
      "[candidate_input ''msg1'' 99 ''2025-05-05'']"]
  from T2 sub have noop: "email_candidates (snd (insertCandidates db_one 7
      [candidate_input ''msg1'' 99 ''2025-05-05''])) = email_candidates db_one"
    by blast
  show ?thesis
    by (intro conjI) (use T1 noop reachable_db_one c sc in \<open>blast+\<close>)
qed

section \<open>The review queue\<close>

lemma mset_order_by_desc [simp]: "mset (order_by_desc k rows) = mset rows"
  by (simp add: order_by_desc_def)

lemma sorted_by_score_then_date:
  "sorted_wrt (\<lambda>a b. confidence_score b < confidence_score a
                  \<or> (confidence_score b = confidence_score a \<and> msg_date b \<le> msg_date a))
     (order_by_desc (\<lambda>c. (confidence_score c, msg_date c)) rows)"
proof -
  have "sorted_wrt (\<lambda>a b. (confidence_score b, msg_date b) \<le> (confidence_score a, msg_date a))
      (order_by_desc (\<lambda>c. (confidence_score c, msg_date c)) rows)"
    by (rule sorted_order_by_desc)
  then show ?thesis
    by (rule sorted_wrt_mono_rel [rotated]) (auto simp: less_eq_prod_def)
qed

lemma bind_limit_in_range:
  "0 \<le> n \<Longrightarrow> n < 2 ^ 63 - 1 \<Longrightarrow> bind_limit (Integer n) = Inr n"
  by (simp add: bind_limit_def)

text \<open>
  Claim C7, as stated, fails. With the limit \<open>-1\<close>, which the batch route hands on for
  \<open>batch_size=-1\<close>, both unreviewed candidates of \<open>db_two\<close> are returned, more than
  the limit. With a limit that is not a 64-bit integer no rows are returned: the statement
  fails (the route hands such a limit on for \<open>batch_size=-99999999999999999999\<close>). And
  among equal scores the order is that of the text of \<open>msg_date\<close>: of two \<open>Date\<close>
  headers the one of 2023 comes before the one of 2024, the older message first.
\<close>

theorem getUnreviewedCandidates_limit_counterexample:
  "batchSize (Parsed (- 1)) = Integer (- 1)
   \<and> map_sum id (map message_id) (getUnreviewedCandidates db_two (batchSize (Parsed (- 1))))
       = Inr [''msg2'', ''msg1'']
   \<and> getUnreviewedCandidates db_two (batchSize (Parsed (- 99999999999999999999)))
       = Inl DatatypeMismatch
   \<and> getUnreviewedCandidates db_two (Integer (2 ^ 63)) = Inl DatatypeMismatch
   \<and> map_sum id (map message_id) (getUnreviewedCandidates db_dates (Integer 20))
       = Inr [''msg2023'', ''msg2024'']
   \<and> map_sum id (map msg_date) (getUnreviewedCandidates db_dates (Integer 20))
       = Inr [''Tue, 03 Jan 2023 10:00:00 +0000'', ''Mon, 01 Jan 2024 10:00:00 +0000'']"
  by code_simp

text \<open>
  Claim C7, amended. For a whole-number limit from 0 to below \<open>2^63 - 1\<close>,
  \<open>getUnreviewedCandidates\<close> returns the first \<open>limit\<close> rows of a list that holds
  exactly the stored rows with \<open>reviewed = 0\<close>, ordered by confidence score descending
  and, among equal scores, by the text of \<open>msg_date\<close> descending: so only unreviewed rows,
  and at most \<open>limit\<close> of them. The result depends on the candidate table alone, so
  calling it again while the candidates are as they were returns the same rows in the same
  order.
\<close>

theorem getUnreviewedCandidates_ordered:
  assumes "0 \<le> limit" and "limit < 2 ^ 63 - 1"
  shows "\<exists>full. getUnreviewedCandidates db (Integer limit) = Inr (take (nat limit) full)
           \<and> mset full = mset (filter (\<lambda>c. reviewed c = 0) (email_candidates db))
           \<and> sorted_wrt (\<lambda>a b. confidence_score b < confidence_score a
                             \<or> (confidence_score b = confidence_score a
                                \<and> msg_date b \<le> msg_date a)) full
           \<and> int (length (take (nat limit) full)) \<le> limit
           \<and> list_all (\<lambda>c. reviewed c = 0 \<and> c \<in> set (email_candidates db))
                (take (nat limit) full)
           \<and> (email_candidates db' = email_candidates db \<longrightarrow>
                getUnreviewedCandidates db' (Integer limit)
                  = getUnreviewedCandidates db (Integer limit))"
proof -
  let ?full = "order_by_desc (\<lambda>c. (confidence_score c, msg_date c))
      (filter (\<lambda>c. reviewed c = 0) (email_candidates db))"
  from assms have bound: "bind_limit (Integer limit) = Inr limit"
    by (rule bind_limit_in_range)
  with assms(1) have result: "getUnreviewedCandidates db (Integer limit) = Inr (take (nat limit) ?full)"
    by (simp add: getUnreviewedCandidates_def sql_limit_def)
  have perm: "mset ?full = mset (filter (\<lambda>c. reviewed c = 0) (email_candidates db))"
    by simp
  have ordered: "sorted_wrt (\<lambda>a b. confidence_score b < confidence_score a
                             \<or> (confidence_score b = confidence_score a
                                \<and> msg_date b \<le> msg_date a)) ?full"
    by (rule sorted_by_score_then_date)
  from assms(1) have cap: "int (length (take (nat limit) ?full)) \<le> limit"
    by simp
  have "set (take (nat limit) ?full) \<subseteq> set ?full" by (rule set_take_subset)
  then have flags: "list_all (\<lambda>c. reviewed c = 0 \<and> c \<in> set (email_candidates db))
      (take (nat limit) ?full)"
    by (auto simp: list_all_iff)
  have again: "email_candidates db' = email_candidates db \<longrightarrow>
      getUnreviewedCandidates db' (Integer limit) = getUnreviewedCandidates db (Integer limit)"
  proof
    assume "email_candidates db' = email_candidates db"
    then show "getUnreviewedCandidates db' (Integer limit)
        = getUnreviewedCandidates db (Integer limit)"
      by (simp add: getUnreviewedCandidates_def bound)
  qed
  from result perm ordered cap flags again show ?thesis by blast
qed

theorem getUnreviewedCandidates_ordered_witness:
  "(0::int) \<le> 1 \<and> (1::int) < 2 ^ 63 - 1
   \<and> (\<exists>full. getUnreviewedCandidates db_two (Integer 1) = Inr (take (nat 1) full)
         \<and> mset full = mset (filter (\<lambda>c. reviewed c = 0) (email_candidates db_two)))
   \<and> map_sum id (map message_id) (getUnreviewedCandidates db_two (Integer 1)) = Inr [''msg2'']
   \<and> email_candidates (deleteDecision db_two_one 1) = email_candidates db_two_one
   \<and> deleteDecision db_two_one 1 \<noteq> db_two_one
   \<and> getUnreviewedCandidates (deleteDecision db_two_one 1) (Integer 1)
       = getUnreviewedCandidates db_two_one (Integer 1)"
proof -
  have lo: "(0::int) \<le> 1" by simp
  have hi: "(1::int) < 2 ^ 63 - 1" by simp
  have ids: "map_sum id (map message_id) (getUnreviewedCandidates db_two (Integer 1))
      = Inr [''msg2'']"
    by code_simp
  have same: "email_candidates (deleteDecision db_two_one 1) = email_candidates db_two_one"
    by (simp add: deleteDecision_def)
  have log: "review_decisions (deleteDecision db_two_one 1) \<noteq> review_decisions db_two_one"
    by code_simp
  have other: "deleteDecision db_two_one 1 \<noteq> db_two_one"
  proof
    assume "deleteDecision db_two_one 1 = db_two_one"
    then have "review_decisions (deleteDecision db_two_one 1) = review_decisions db_two_one"
      by (rule arg_cong)
    with log show False by (rule notE)
  qed
  from getUnreviewedCandidates_ordered [OF lo hi, of db_two db_two]
  have a: "\<exists>full. getUnreviewedCandidates db_two (Integer 1) = Inr (take (nat 1) full)
         \<and> mset full = mset (filter (\<lambda>c. reviewed c = 0) (email_candidates db_two))"
    by blast
  from getUnreviewedCandidates_ordered [OF lo hi, of db_two_one "deleteDecision db_two_one 1"] same
  have d: "getUnreviewedCandidates (deleteDecision db_two_one 1) (Integer 1)
      = getUnreviewedCandidates db_two_one (Integer 1)"
    by blast
  from lo hi a ids same other d show ?thesis by blast
qed

section \<open>Search\<close>

lemma str_includes_sublist: "str_includes s sub \<longleftrightarrow> sublist sub s"
  by (induction s) (simp_all add: sublist_Cons_right)

lemma str_includes_Nil [simp]: "str_includes s []"
  by (cases s) simp_all












end
